theory Spec2Isabelle
  imports Main "HOL-Library.Word"
begin

section \<open>The object store of the PDF writer (package pdf, file.go)\<close>

text \<open>
  The development embeds the cross-reference table of the writer, the object-number
  allocator working on it and the serializer of the table. Integers have the widths
  of the Go source: \<open>uint64\<close> offsets, \<open>uint16\<close> generations, \<open>uint32\<close> object
  numbers. Indices into the table are Go \<open>uint\<close> values, bounded by the length of
  the table, and are natural numbers here.
\<close>

subsection \<open>Data\<close>

record ObjectNumber =
  number :: "32 word"
  generation :: "16 word"

text \<open>
  \<open>xrefEntry\<close>: the field \<open>generation\<close> of the source is \<open>entry_generation\<close> here,
  since \<open>ObjectNumber\<close> has a field of the same name.
\<close>

record xrefEntry =
  byteOffset :: "64 word"
  entry_generation :: "16 word"
  inUse :: bool
  dirty :: bool

text \<open>
  The values the sources define: \<open>Null\<close> and \<open>Array\<close>. The store only serializes them.
\<close>

datatype Object = Null | Array "Object list"

text \<open>
  The panics of the store, by the message they carry: "An object has already been
  written with this number" is \<open>AlreadyWritten\<close>, "Generation number mismatch" is
  \<open>GenerationMismatch\<close>. \<open>IndexOutOfRange\<close> stands for \<open>At\<close> called with an index
  outside the table. \<open>AlreadyClosed\<close> is the failure the specification names for
  operations on a closed store; no function of the source raises it.
\<close>

datatype error = AlreadyWritten | GenerationMismatch | IndexOutOfRange | AlreadyClosed

text \<open>
  The state of a \<open>file\<close> of the source, the record \<open>file_t\<close> here: the table
  \<open>xref\<close>; \<open>out\<close>, the bytes handed to \<open>f.writer\<close> so far, in order; \<open>closed\<close>,
  whether \<open>f.file.Close()\<close> has run. The last is the state of the operating-system
  handle: the source keeps no such field and never reads it. The trailer dictionary is
  created and never written, and is left out.
\<close>

record file_t =
  xref :: "xrefEntry list"
  out :: string
  closed :: bool

subsection \<open>Formatting (package fmt)\<close>

definition digit_char :: "nat \<Rightarrow> char" where
  "digit_char d = ''0123456789'' ! d"

text \<open>\<open>%d\<close> of an unsigned value: its decimal digits, no leading zero.\<close>

fun fmt_d :: "nat \<Rightarrow> string" where
  "fmt_d n = (if n < 10 then [digit_char n] else fmt_d (n div 10) @ [digit_char (n mod 10)])"

declare fmt_d.simps [simp del]

text \<open>\<open>%0wd\<close>: the same digits, padded with zeros on the left to at least \<open>w\<close> characters.\<close>

definition fmt_0d :: "nat \<Rightarrow> nat \<Rightarrow> string" where
  "fmt_0d w n = replicate (w - length (fmt_d n)) (CHR ''0'') @ fmt_d n"

subsection \<open>Serialization of values and of table entries\<close>

text \<open>
  \<open>Null.Serialize\<close> writes \<open>null\<close>; \<open>Array.Serialize\<close> writes the elements between
  brackets, a space before every element but the first.
\<close>

fun Serialize_Object :: "Object \<Rightarrow> string"
  and Serialize_elements :: "bool \<Rightarrow> Object list \<Rightarrow> string" where
  "Serialize_Object Null = ''null''"
| "Serialize_Object (Array os) = ''['' @ Serialize_elements True os @ '']''"
| "Serialize_elements first [] = []"
| "Serialize_elements first (x # os) =
     (if first then [] else '' '') @ Serialize_Object x @ Serialize_elements False os"

text \<open>\<open>xrefEntry.Serialize\<close>: the format \<open>"%010d %05d %c \n"\<close>.\<close>

definition Serialize :: "xrefEntry \<Rightarrow> string" where
  "Serialize entry =
     fmt_0d 10 (unat (byteOffset entry)) @ '' '' @
     fmt_0d 5 (unat (entry_generation entry)) @ '' '' @
     [if inUse entry then CHR ''n'' else CHR ''f''] @ [CHR '' '', CHR 0x0A]"

subsection \<open>The table\<close>

text \<open>
  Modelled from the spec: \<open>containers.Array\<close> (package \<open>maw/containers\<close>) is not among
  the sources. The specification calls the table "an ordered, growable sequence of
  fixed-shape records, indexed by object number": a list, \<open>PushBack\<close> appending at the
  end, \<open>Size\<close> its length, \<open>At\<close> reading an index. \<open>At\<close> outside the table is the failure
  \<open>IndexOutOfRange\<close> here.
\<close>

definition At :: "xrefEntry list \<Rightarrow> nat \<Rightarrow> error + xrefEntry" where
  "At xs i = (if i < length xs then Inr (xs ! i) else Inl IndexOutOfRange)"

definition PushBack :: "xrefEntry list \<Rightarrow> xrefEntry \<Rightarrow> xrefEntry list" where
  "PushBack xs e = xs @ [e]"

subsection \<open>Construction\<close>

definition writePdfHeader :: "file_t \<Rightarrow> file_t" where
  "writePdfHeader f = f\<lparr>out := out f @ ''%PDF-1.4'' @ [CHR 0x0A]\<rparr>"

definition createInitialXref :: "file_t \<Rightarrow> file_t" where
  "createInitialXref f =
     f\<lparr>xref := PushBack (xref f)
        \<lparr>byteOffset = 0, entry_generation = 65535, inUse = False, dirty = True\<rparr>\<rparr>"

text \<open>
  \<open>NewFile\<close>, on the path where \<open>os.Create\<close> succeeds: an empty table and writer, then
  the header and the initial entry.
\<close>

definition NewFile :: file_t where
  "NewFile = createInitialXref (writePdfHeader \<lparr>xref = [], out = [], closed = False\<rparr>)"

subsection \<open>Reserving an object number\<close>

text \<open>
  The scan of \<open>ReserveObjectNumber\<close>: from \<open>nextUnused\<close>, while the index is inside the
  table and the entry has a generation below 65535 and is in use.
\<close>

function find_unused :: "xrefEntry list \<Rightarrow> nat \<Rightarrow> nat" where
  "find_unused xs nextUnused =
     (if nextUnused < length xs \<and> entry_generation (xs ! nextUnused) < 65535
          \<and> inUse (xs ! nextUnused)
      then find_unused xs (nextUnused + 1) else nextUnused)"
  by pat_completeness auto
termination
  by (relation "measure (\<lambda>(xs, i). length xs - i)") auto

declare find_unused.simps [simp del]

text \<open>
  \<open>ReserveObjectNumber\<close> ignores its argument. Past the end of the table it appends
  a new entry and the generation is the zero value. Otherwise \<open>nextUnused\<close> is inside the
  table and at least 1, so both \<open>At\<close> calls are in range and the two entries are distinct.
\<close>

definition ReserveObjectNumber :: "file_t \<Rightarrow> Object \<Rightarrow> file_t \<times> ObjectNumber" where
  "ReserveObjectNumber f ob =
     (let nextUnused = find_unused (xref f) 1 in
      if nextUnused \<ge> length (xref f) then
        (f\<lparr>xref := PushBack (xref f)
             \<lparr>byteOffset = 0, entry_generation = 0, inUse = True, dirty = True\<rparr>\<rparr>,
         \<lparr>number = of_nat nextUnused, generation = 0\<rparr>)
      else
        (let entry = xref f ! nextUnused;
             xs1 = (xref f)[0 := (xref f ! 0)\<lparr>byteOffset := byteOffset entry\<rparr>];
             xs2 = xs1[nextUnused := (xs1 ! nextUnused)\<lparr>inUse := True\<rparr>]
         in (f\<lparr>xref := xs2\<rparr>,
             \<lparr>number = of_nat nextUnused, generation = entry_generation entry\<rparr>)))"

subsection \<open>Writing and deleting\<close>

text \<open>
  The position \<open>AddObjectAt\<close> reads after flushing the writer, \<open>f.file.Seek(0,1)\<close> with
  the error dropped: the number of bytes written so far; 0 on a closed handle, where
  the call fails.
\<close>

definition position :: "file_t \<Rightarrow> 64 word" where
  "position f = (if closed f then 0 else of_nat (length (out f)))"

definition AddObjectAt :: "file_t \<Rightarrow> ObjectNumber \<Rightarrow> Object \<Rightarrow> error + file_t" where
  "AddObjectAt f object ob =
     (case At (xref f) (unat (number object)) of
        Inl e \<Rightarrow> Inl e
      | Inr entry \<Rightarrow>
          if byteOffset entry \<noteq> 0 then Inl AlreadyWritten
          else if entry_generation entry \<noteq> generation object then Inl GenerationMismatch
          else Inr (f\<lparr>xref := (xref f)[unat (number object) :=
                                  entry\<lparr>byteOffset := position f\<rparr>],
                       out := out f @ fmt_d (unat (number object)) @ '' '' @
                              fmt_d (unat (generation object)) @ '' obj'' @ [CHR 0x0A] @
                              Serialize_Object ob @ [CHR 0x0A] @ ''endobj'' @ [CHR 0x0A]\<rparr>))"

text \<open>
  \<open>DeleteObject\<close> writes through two pointers, \<open>entry\<close> and \<open>At(0)\<close>, which are the same
  entry when the object number is 0: every assignment below reads the table as the
  assignments before it left it.
\<close>

definition DeleteObject :: "file_t \<Rightarrow> ObjectNumber \<Rightarrow> error + file_t" where
  "DeleteObject f object =
     (let n = unat (number object) in
      case At (xref f) n of
        Inl e \<Rightarrow> Inl e
      | Inr entry \<Rightarrow>
          if generation object \<noteq> entry_generation entry then Inl GenerationMismatch
          else
            (let xs1 = (xref f)[n := (xref f ! n)\<lparr>byteOffset := byteOffset (xref f ! 0)\<rparr>];
                 xs2 = xs1[0 := (xs1 ! 0)\<lparr>byteOffset := ucast (number object)\<rparr>];
                 xs3 = (if entry_generation (xs2 ! n) < 65535
                        then xs2[n := (xs2 ! n)\<lparr>entry_generation := entry_generation (xs2 ! n) + 1\<rparr>]
                        else xs2);
                 xs4 = xs3[n := (xs3 ! n)\<lparr>inUse := False\<rparr>];
                 xs5 = xs4[n := (xs4 ! n)\<lparr>dirty := True\<rparr>]
             in Inr (f\<lparr>xref := xs5\<rparr>)))"

definition AddObject :: "file_t \<Rightarrow> Object \<Rightarrow> error + file_t \<times> ObjectNumber" where
  "AddObject f ob =
     (let (f1, objectNumber) = ReserveObjectNumber f ob in
      case AddObjectAt f1 objectNumber ob of
        Inl e \<Rightarrow> Inl e
      | Inr f2 \<Rightarrow> Inr (f2, objectNumber))"

subsection \<open>Writing the table\<close>

text \<open>The two loops of \<open>nextSegment\<close>: skip the entries that are not dirty, count the dirty ones.\<close>

function skip_clean :: "xrefEntry list \<Rightarrow> nat \<Rightarrow> nat" where
  "skip_clean xs i =
     (if i < length xs \<and> \<not> dirty (xs ! i) then skip_clean xs (i + 1) else i)"
  by pat_completeness auto
termination
  by (relation "measure (\<lambda>(xs, i). length xs - i)") auto

declare skip_clean.simps [simp del]

function count_dirty :: "xrefEntry list \<Rightarrow> nat \<Rightarrow> nat \<Rightarrow> nat" where
  "count_dirty xs i len =
     (if i < length xs \<and> dirty (xs ! i) then count_dirty xs (i + 1) (len + 1) else len)"
  by pat_completeness auto
termination
  by (relation "measure (\<lambda>(xs, i, len). length xs - i)") auto

declare count_dirty.simps [simp del]

definition nextSegment :: "xrefEntry list \<Rightarrow> nat \<Rightarrow> nat \<times> nat" where
  "nextSegment xs start =
     (let nextStart = skip_clean xs start in (nextStart, count_dirty xs nextStart 0))"

text \<open>The inner loop of \<open>writeXref\<close>: the entries \<open>i\<close> up to \<open>stop\<close>, each read with \<open>At\<close>.\<close>

function write_entries :: "xrefEntry list \<Rightarrow> nat \<Rightarrow> nat \<Rightarrow> string \<Rightarrow> error + string" where
  "write_entries xs i stop w =
     (if i < stop then
        (case At xs i of
           Inl e \<Rightarrow> Inl e
         | Inr entry \<Rightarrow> write_entries xs (i + 1) stop (w @ Serialize entry))
      else Inr w)"
  by pat_completeness auto
termination
  by (relation "measure (\<lambda>(xs, i, stop, w). stop - i)") auto

declare write_entries.simps [simp del]

text \<open>
  The outer loop of \<open>writeXref\<close> runs on the pair \<open>(s, l)\<close> that \<open>nextSegment\<close> returned.
  It ends because \<open>nextSegment\<close> never returns a start before the one it was given, and
  a start inside the table is a dirty entry, so the length with it is positive.
\<close>

lemma skip_clean_ge: "start \<le> skip_clean xs start"
proof (induction xs start rule: skip_clean.induct)
  case (1 xs i)
  show ?case
    by (subst skip_clean.simps) (use "1" in \<open>auto simp: Suc_leD\<close>)
qed

lemma skip_clean_le: "start \<le> length xs \<Longrightarrow> skip_clean xs start \<le> length xs"
proof (induction xs start rule: skip_clean.induct)
  case (1 xs i)
  show ?case
    by (subst skip_clean.simps) (use "1" in auto)
qed

lemma skip_clean_dirty: "skip_clean xs start < length xs \<Longrightarrow> dirty (xs ! skip_clean xs start)"
proof (induction xs start rule: skip_clean.induct)
  case (1 xs i)
  show ?case
  proof (cases "i < length xs \<and> \<not> dirty (xs ! i)")
    case True
    then have eq: "skip_clean xs i = skip_clean xs (i + 1)"
      by (subst skip_clean.simps) simp
    with "1" True show ?thesis by simp
  next
    case False
    then have eq: "skip_clean xs i = i"
      by (subst skip_clean.simps) auto
    with "1.prems" False show ?thesis by auto
  qed
qed

lemma count_dirty_ge: "len \<le> count_dirty xs i len"
proof (induction xs i len rule: count_dirty.induct)
  case (1 xs i len)
  show ?case
    by (subst count_dirty.simps) (use "1" in \<open>auto simp: Suc_leD\<close>)
qed

lemma count_dirty_pos: "i < length xs \<Longrightarrow> dirty (xs ! i) \<Longrightarrow> 0 < count_dirty xs i 0"
  using count_dirty_ge [of 1 xs "i + 1"] by (subst count_dirty.simps) simp

function writeXref_loop :: "xrefEntry list \<Rightarrow> nat \<times> nat \<Rightarrow> string \<Rightarrow> error + string" where
  "writeXref_loop xs (s, l) w =
     (if s < length xs then
        (case write_entries xs s (s + l) (w @ fmt_d s @ '' '' @ fmt_d l @ [CHR 0x0A]) of
           Inl e \<Rightarrow> Inl e
         | Inr w' \<Rightarrow> writeXref_loop xs (nextSegment xs (s + l)) w')
      else Inr w)"
  by pat_completeness auto
termination
proof (relation "measures [\<lambda>(xs, (s, l), w). length xs - s,
                           \<lambda>(xs, (s, l), w). if l = 0 then 1 else 0]", goal_cases)
  case 1
  show ?case by simp
next
  case (2 xs s l w w')
  let ?s' = "skip_clean xs (s + l)"
  have ge: "s + l \<le> ?s'" by (rule skip_clean_ge)
  show ?case
  proof (cases "s < ?s'")
    case True
    with 2 show ?thesis by (auto simp: nextSegment_def Let_def)
  next
    case False
    with ge have l0: "l = 0" and eq: "?s' = s" by auto
    from eq 2 have "dirty (xs ! s)" using skip_clean_dirty [of xs "s + l"] by (simp add: l0)
    with 2 have "0 < count_dirty xs s 0" by (intro count_dirty_pos) auto
    with l0 eq show ?thesis by (auto simp: nextSegment_def Let_def)
  qed
qed

declare writeXref_loop.simps [simp del]

definition writeXref :: "file_t \<Rightarrow> error + file_t" where
  "writeXref f =
     (case writeXref_loop (xref f) (nextSegment (xref f) 0) (out f @ ''xref'' @ [CHR 0x0A]) of
        Inl e \<Rightarrow> Inl e
      | Inr w \<Rightarrow> Inr (f\<lparr>out := w\<rparr>))"

text \<open>\<open>Close\<close>: the table, a flush, and the handle is closed. It tests nothing before.\<close>

definition Close :: "file_t \<Rightarrow> error + file_t" where
  "Close f = (case writeXref f of Inl e \<Rightarrow> Inl e | Inr f' \<Rightarrow> Inr (f'\<lparr>closed := True\<rparr>))"

subsection \<open>Calls, runs and reachable states\<close>

datatype call =
    CallReserve Object
  | CallAddObjectAt ObjectNumber Object
  | CallAddObject Object
  | CallDeleteObject ObjectNumber
  | CallClose

fun step :: "file_t \<Rightarrow> call \<Rightarrow> error + file_t" where
  "step f (CallReserve ob) = Inr (fst (ReserveObjectNumber f ob))"
| "step f (CallAddObjectAt object ob) = AddObjectAt f object ob"
| "step f (CallAddObject ob) = map_sum id fst (AddObject f ob)"
| "step f (CallDeleteObject object) = DeleteObject f object"
| "step f CallClose = Close f"

text \<open>A run stops at the first call that panics.\<close>

fun run :: "file_t \<Rightarrow> call list \<Rightarrow> error + file_t" where
  "run f [] = Inr f"
| "run f (c # cs) = (case step f c of Inl e \<Rightarrow> Inl e | Inr f' \<Rightarrow> run f' cs)"

inductive reachable :: "file_t \<Rightarrow> bool" where
  reachable_new: "reachable NewFile"
| reachable_step: "reachable f \<Longrightarrow> step f c = Inr f' \<Longrightarrow> reachable f'"

section \<open>Notions used by the claims\<close>

text \<open>
  \<open>dirty_kept xs ys\<close>: the table \<open>ys\<close> is at least as long as \<open>xs\<close>, and an entry of \<open>ys\<close>
  is dirty when it is new or was dirty in \<open>xs\<close>.
\<close>

definition dirty_kept :: "xrefEntry list \<Rightarrow> xrefEntry list \<Rightarrow> bool" where
  "dirty_kept xs ys =
     (length xs \<le> length ys \<and>
      (\<forall>i<length ys. (i < length xs \<longrightarrow> dirty (xs ! i)) \<longrightarrow> dirty (ys ! i)))"

text \<open>
  \<open>slot0_ok\<close>: the table has a first entry, with generation 65535 and not in use.
\<close>

definition slot0_ok :: "xrefEntry list \<Rightarrow> bool" where
  "slot0_ok xs = (xs \<noteq> [] \<and> entry_generation (xs ! 0) = 65535 \<and> \<not> inUse (xs ! 0))"

text \<open>
  The entries that are free: those after the first that are not in use. The first entry
  holds the head of the free list when its \<open>byteOffset\<close> is the index of a free entry,
  or 0 when no entry is free.
\<close>

definition free_indices :: "xrefEntry list \<Rightarrow> nat list" where
  "free_indices xs = filter (\<lambda>i. \<not> inUse (xs ! i)) [1..<length xs]"

definition head_is_free_list_head :: "xrefEntry list \<Rightarrow> bool" where
  "head_is_free_list_head xs =
     (if free_indices xs = [] then byteOffset (xs ! 0) = 0
      else unat (byteOffset (xs ! 0)) \<in> set (free_indices xs))"

text \<open>
  The specification's side. A segment starts at a dirty entry that is the first of the
  table or follows an entry that is not dirty, and it extends over the dirty entries that
  follow without a gap (\<open>run_length\<close>). \<open>spec_segments\<close> lists the segments, as pairs of
  start and length, by ascending start.
\<close>

definition is_segment_start :: "xrefEntry list \<Rightarrow> nat \<Rightarrow> bool" where
  "is_segment_start xs s = (dirty (xs ! s) \<and> (s = 0 \<or> \<not> dirty (xs ! (s - 1))))"

definition run_length :: "xrefEntry list \<Rightarrow> nat \<Rightarrow> nat" where
  "run_length xs s = length (takeWhile dirty (drop s xs))"

definition segments_from :: "xrefEntry list \<Rightarrow> nat \<Rightarrow> (nat \<times> nat) list" where
  "segments_from xs p =
     map (\<lambda>s. (s, run_length xs s)) (filter (is_segment_start xs) [p..<length xs])"

definition spec_segments :: "xrefEntry list \<Rightarrow> (nat \<times> nat) list" where
  "spec_segments xs = segments_from xs 0"

text \<open>
  A segment as text: the line with start and length, then the record of each of its
  entries, in table order.
\<close>

definition segment_text :: "(xrefEntry \<Rightarrow> string) \<Rightarrow> xrefEntry list \<Rightarrow> nat \<times> nat \<Rightarrow> string" where
  "segment_text record_of xs seg =
     fmt_d (fst seg) @ '' '' @ fmt_d (snd seg) @ [CHR 0x0A] @
     concat (map record_of (take (snd seg) (drop (fst seg) xs)))"

text \<open>
  The record of the specification has fixed width: the \<open>byteOffset\<close> in exactly 10
  decimal digits, the generation in exactly 5, the letter \<open>n\<close> or \<open>f\<close>.
  \<open>fixed_digits w n\<close> is the last \<open>w\<close> decimal digits of \<open>n\<close>.
\<close>

fun fixed_digits :: "nat \<Rightarrow> nat \<Rightarrow> string" where
  "fixed_digits 0 n = []"
| "fixed_digits (Suc w) n = fixed_digits w (n div 10) @ [digit_char (n mod 10)]"

definition spec_record :: "xrefEntry \<Rightarrow> string" where
  "spec_record e =
     fixed_digits 10 (unat (byteOffset e)) @ '' '' @
     fixed_digits 5 (unat (entry_generation e)) @ '' '' @
     (if inUse e then ''n'' else ''f'') @ '' '' @ [CHR 0x0A]"

text \<open>
  A maximal run of dirty entries: \<open>l\<close> entries from \<open>s\<close>, all dirty, no dirty entry
  just before and none just after.
\<close>

definition is_dirty_run :: "xrefEntry list \<Rightarrow> nat \<Rightarrow> nat \<Rightarrow> bool" where
  "is_dirty_run xs s l =
     (0 < l \<and> s + l \<le> length xs \<and> list_all dirty (take l (drop s xs)) \<and>
      (s = 0 \<or> \<not> dirty (xs ! (s - 1))) \<and>
      (s + l = length xs \<or> \<not> dirty (xs ! (s + l))))"

text \<open>The index of the specification: the keyword line and the segments.\<close>

definition spec_index :: "xrefEntry list \<Rightarrow> string" where
  "spec_index xs =
     ''xref'' @ [CHR 0x0A] @ concat (map (segment_text spec_record xs) (spec_segments xs))"

text \<open>The text \<open>writeXref\<close> appends for a table, whatever its offsets.\<close>

definition xref_text :: "xrefEntry list \<Rightarrow> string" where
  "xref_text xs =
     ''xref'' @ [CHR 0x0A] @ concat (map (segment_text Serialize xs) (spec_segments xs))"

section \<open>Concrete tables\<close>

text \<open>
  Reserving a number and deleting it, \<open>k\<close> times over from the new store, leaves entry 1
  free with generation \<open>k\<close>: after 65535 rounds the generation is 65535 and stays there.
\<close>

definition cycled :: "nat \<Rightarrow> file_t" where
  "cycled k =
     \<lparr>xref = [\<lparr>byteOffset = 1, entry_generation = 65535, inUse = False, dirty = True\<rparr>,
              \<lparr>byteOffset = 0, entry_generation = of_nat k, inUse = False, dirty = True\<rparr>],
      out = ''%PDF-1.4'' @ [CHR 0x0A], closed = False\<rparr>"

text \<open>
  \<open>retired_free\<close> is the table after 65535 rounds; \<open>retired_in_use\<close> is what
  \<open>ReserveObjectNumber\<close> makes of it.
\<close>

definition retired_free :: file_t where
  "retired_free =
     \<lparr>xref = [\<lparr>byteOffset = 1, entry_generation = 65535, inUse = False, dirty = True\<rparr>,
              \<lparr>byteOffset = 0, entry_generation = 65535, inUse = False, dirty = True\<rparr>],
      out = ''%PDF-1.4'' @ [CHR 0x0A], closed = False\<rparr>"

definition retired_in_use :: file_t where
  "retired_in_use =
     \<lparr>xref = [\<lparr>byteOffset = 0, entry_generation = 65535, inUse = False, dirty = True\<rparr>,
              \<lparr>byteOffset = 0, entry_generation = 65535, inUse = True, dirty = True\<rparr>],
      out = ''%PDF-1.4'' @ [CHR 0x0A], closed = False\<rparr>"

text \<open>
  A reachable state with three entries: an object written, a second number reserved and
  deleted again.
\<close>

definition three_slots :: file_t where
  "three_slots =
     \<lparr>xref = [\<lparr>byteOffset = 2, entry_generation = 65535, inUse = False, dirty = True\<rparr>,
              \<lparr>byteOffset = 9, entry_generation = 0, inUse = True, dirty = True\<rparr>,
              \<lparr>byteOffset = 0, entry_generation = 1, inUse = False, dirty = True\<rparr>],
      out = ''%PDF-1.4'' @ [CHR 0x0A] @ ''1 0 obj'' @ [CHR 0x0A] @ ''null'' @ [CHR 0x0A] @
            ''endobj'' @ [CHR 0x0A],
      closed = False\<rparr>"

text \<open>
  The table after a number is reserved, deleted, reserved again with generation 1 and
  written.
\<close>

definition rewritten :: file_t where
  "rewritten =
     \<lparr>xref = [\<lparr>byteOffset = 0, entry_generation = 65535, inUse = False, dirty = True\<rparr>,
              \<lparr>byteOffset = 9, entry_generation = 1, inUse = True, dirty = True\<rparr>],
      out = ''%PDF-1.4'' @ [CHR 0x0A] @ ''1 1 obj'' @ [CHR 0x0A] @ ''null'' @ [CHR 0x0A] @
            ''endobj'' @ [CHR 0x0A],
      closed = False\<rparr>"

text \<open>Two numbers reserved from the new store, and the second deleted.\<close>

definition two_live :: file_t where
  "two_live =
     \<lparr>xref = [\<lparr>byteOffset = 0, entry_generation = 65535, inUse = False, dirty = True\<rparr>,
              \<lparr>byteOffset = 0, entry_generation = 0, inUse = True, dirty = True\<rparr>,
              \<lparr>byteOffset = 0, entry_generation = 0, inUse = True, dirty = True\<rparr>],
      out = ''%PDF-1.4'' @ [CHR 0x0A], closed = False\<rparr>"

definition second_deleted :: file_t where
  "second_deleted =
     \<lparr>xref = [\<lparr>byteOffset = 2, entry_generation = 65535, inUse = False, dirty = True\<rparr>,
              \<lparr>byteOffset = 0, entry_generation = 0, inUse = True, dirty = True\<rparr>,
              \<lparr>byteOffset = 0, entry_generation = 1, inUse = False, dirty = True\<rparr>],
      out = ''%PDF-1.4'' @ [CHR 0x0A], closed = False\<rparr>"

text \<open>Two numbers reserved, the first deleted (\<open>first_freed\<close>), then the second too.\<close>

definition first_freed :: file_t where
  "first_freed =
     \<lparr>xref = [\<lparr>byteOffset = 1, entry_generation = 65535, inUse = False, dirty = True\<rparr>,
              \<lparr>byteOffset = 0, entry_generation = 1, inUse = False, dirty = True\<rparr>,
              \<lparr>byteOffset = 0, entry_generation = 0, inUse = True, dirty = True\<rparr>],
      out = ''%PDF-1.4'' @ [CHR 0x0A], closed = False\<rparr>"

definition both_freed :: file_t where
  "both_freed =
     \<lparr>xref = [\<lparr>byteOffset = 2, entry_generation = 65535, inUse = False, dirty = True\<rparr>,
              \<lparr>byteOffset = 0, entry_generation = 1, inUse = False, dirty = True\<rparr>,
              \<lparr>byteOffset = 1, entry_generation = 1, inUse = False, dirty = True\<rparr>],
      out = ''%PDF-1.4'' @ [CHR 0x0A], closed = False\<rparr>"

text \<open>
  Two numbers reserved and deleted in the opposite order, nothing written
  (\<open>linked_free\<close>); then a reservation (\<open>reserved_linked\<close>).
\<close>

definition linked_free :: file_t where
  "linked_free =
     \<lparr>xref = [\<lparr>byteOffset = 1, entry_generation = 65535, inUse = False, dirty = True\<rparr>,
              \<lparr>byteOffset = 2, entry_generation = 1, inUse = False, dirty = True\<rparr>,
              \<lparr>byteOffset = 0, entry_generation = 1, inUse = False, dirty = True\<rparr>],
      out = ''%PDF-1.4'' @ [CHR 0x0A], closed = False\<rparr>"

definition reserved_linked :: file_t where
  "reserved_linked =
     \<lparr>xref = [\<lparr>byteOffset = 2, entry_generation = 65535, inUse = False, dirty = True\<rparr>,
              \<lparr>byteOffset = 2, entry_generation = 1, inUse = True, dirty = True\<rparr>,
              \<lparr>byteOffset = 0, entry_generation = 1, inUse = False, dirty = True\<rparr>],
      out = ''%PDF-1.4'' @ [CHR 0x0A], closed = False\<rparr>"

text \<open>
  Two numbers reserved, deleted in the order of reservation, and one reservation.
\<close>

definition head_lost :: file_t where
  "head_lost =
     \<lparr>xref = [\<lparr>byteOffset = 0, entry_generation = 65535, inUse = False, dirty = True\<rparr>,
              \<lparr>byteOffset = 0, entry_generation = 1, inUse = True, dirty = True\<rparr>,
              \<lparr>byteOffset = 1, entry_generation = 1, inUse = False, dirty = True\<rparr>],
      out = ''%PDF-1.4'' @ [CHR 0x0A], closed = False\<rparr>"

text \<open>A table of five entries, the second and the last not dirty.\<close>

definition mixed :: file_t where
  "mixed =
     \<lparr>xref = [\<lparr>byteOffset = 0, entry_generation = 65535, inUse = False, dirty = True\<rparr>,
              \<lparr>byteOffset = 9, entry_generation = 0, inUse = True, dirty = False\<rparr>,
              \<lparr>byteOffset = 17, entry_generation = 0, inUse = True, dirty = True\<rparr>,
              \<lparr>byteOffset = 0, entry_generation = 3, inUse = False, dirty = True\<rparr>,
              \<lparr>byteOffset = 25, entry_generation = 1, inUse = True, dirty = False\<rparr>],
      out = [], closed = False\<rparr>"

text \<open>A table whose second entry has the \<open>byteOffset\<close> \<open>10 ^ 10\<close>.\<close>

definition large_offset :: file_t where
  "large_offset =
     \<lparr>xref = [\<lparr>byteOffset = 0, entry_generation = 65535, inUse = False, dirty = True\<rparr>,
              \<lparr>byteOffset = 10000000000, entry_generation = 0, inUse = True, dirty = True\<rparr>],
      out = [], closed = False\<rparr>"

text \<open>The store closed after one reservation.\<close>

definition closed_store :: file_t where
  "closed_store =
     \<lparr>xref = [\<lparr>byteOffset = 0, entry_generation = 65535, inUse = False, dirty = True\<rparr>,
              \<lparr>byteOffset = 0, entry_generation = 0, inUse = True, dirty = True\<rparr>],
      out = ''%PDF-1.4'' @ [CHR 0x0A] @ ''xref'' @ [CHR 0x0A] @ ''0 2'' @ [CHR 0x0A] @
            ''0000000000 65535 f '' @ [CHR 0x0A] @ ''0000000000 00000 n '' @ [CHR 0x0A],
      closed = True\<rparr>"

text \<open>The new store, closed.\<close>

definition closed_new :: file_t where
  "closed_new =
     \<lparr>xref = [\<lparr>byteOffset = 0, entry_generation = 65535, inUse = False, dirty = True\<rparr>],
      out = ''%PDF-1.4'' @ [CHR 0x0A] @ ''xref'' @ [CHR 0x0A] @ ''0 1'' @ [CHR 0x0A] @
            ''0000000000 65535 f '' @ [CHR 0x0A],
      closed = True\<rparr>"

section \<open>Properties of the operations\<close>

subsection \<open>Auxiliary facts\<close>

lemma nth_update_if: "xs[i := v] ! j = (if i = j \<and> i < length xs then v else xs ! j)"
  by (cases "i < length xs") (auto simp: nth_list_update list_update_beyond)

lemma find_unused_ge: "i \<le> find_unused xs i"
proof (induction xs i rule: find_unused.induct)
  case (1 xs i)
  show ?case
    by (subst find_unused.simps) (use "1" in \<open>auto simp: Suc_leD\<close>)
qed

lemma find_unused_eq:
  "i \<le> n \<Longrightarrow> n < length xs \<Longrightarrow>
   \<forall>j. i \<le> j \<and> j < n \<longrightarrow> inUse (xs ! j) \<and> entry_generation (xs ! j) < 65535 \<Longrightarrow>
   \<not> (entry_generation (xs ! n) < 65535 \<and> inUse (xs ! n)) \<Longrightarrow>
   find_unused xs i = n"
proof (induction xs i rule: find_unused.induct)
  case (1 xs i)
  show ?case
  proof (cases "i = n")
    case True
    with "1.prems" show ?thesis by (subst find_unused.simps) auto
  next
    case False
    with "1.prems" have lt: "i < n" by simp
    with "1.prems" have cont: "i < length xs \<and> entry_generation (xs ! i) < 65535 \<and> inUse (xs ! i)"
      by auto
    from lt "1.prems" have "find_unused xs (i + 1) = n"
      by (intro "1.IH") (use cont in auto)
    with cont show ?thesis by (subst find_unused.simps) simp
  qed
qed

lemma xref_writeXref: "writeXref f = Inr f' \<Longrightarrow> xref f' = xref f \<and> closed f' = closed f"
  by (auto simp: writeXref_def split: sum.splits)

lemma xref_Close: "Close f = Inr f' \<Longrightarrow> xref f' = xref f"
  by (auto simp: Close_def split: sum.splits dest: xref_writeXref)

lemma DeleteObject_result:
  "DeleteObject f object = Inr f' \<Longrightarrow>
     unat (number object) < length (xref f) \<and> length (xref f') = length (xref f) \<and>
     generation object = entry_generation (xref f ! unat (number object)) \<and>
     entry_generation (xref f' ! unat (number object)) =
       (if generation object < 65535 then generation object + 1 else generation object) \<and>
     \<not> inUse (xref f' ! unat (number object)) \<and>
     (\<forall>j. j \<noteq> 0 \<and> j \<noteq> unat (number object) \<longrightarrow> xref f' ! j = xref f ! j)"
  by (auto simp: DeleteObject_def At_def Let_def nth_update_if split: if_splits)

subsection \<open>Dirty entries stay dirty\<close>

lemma dirty_kept_Reserve: "dirty_kept (xref f) (xref (fst (ReserveObjectNumber f ob)))"
  by (auto simp: dirty_kept_def ReserveObjectNumber_def Let_def PushBack_def nth_append nth_update_if)

lemma dirty_kept_AddObjectAt:
  "AddObjectAt f object ob = Inr f' \<Longrightarrow> dirty_kept (xref f) (xref f')"
  by (auto simp: dirty_kept_def AddObjectAt_def At_def nth_update_if split: if_splits)

lemma dirty_kept_DeleteObject:
  "DeleteObject f object = Inr f' \<Longrightarrow> dirty_kept (xref f) (xref f')"
  by (auto simp: dirty_kept_def DeleteObject_def At_def Let_def nth_update_if split: if_splits)

lemma dirty_kept_trans: "dirty_kept xs ys \<Longrightarrow> dirty_kept ys zs \<Longrightarrow> dirty_kept xs zs"
  by (fastforce simp: dirty_kept_def)

lemma dirty_kept_step: "step f c = Inr f' \<Longrightarrow> dirty_kept (xref f) (xref f')"
proof (cases c)
  case (CallAddObject ob)
  assume s: "step f c = Inr f'"
  obtain f1 n where r: "ReserveObjectNumber f ob = (f1, n)" by (cases "ReserveObjectNumber f ob")
  with dirty_kept_Reserve [of f ob] have "dirty_kept (xref f) (xref f1)" by simp
  moreover from s CallAddObject r have "AddObjectAt f1 n ob = Inr f'"
    by (auto simp: AddObject_def split: sum.splits)
  then have "dirty_kept (xref f1) (xref f')" by (rule dirty_kept_AddObjectAt)
  ultimately show ?thesis by (rule dirty_kept_trans)
next
  case CallClose
  assume "step f c = Inr f'"
  with CallClose show ?thesis by (auto simp: dirty_kept_def dest: xref_Close)
qed (auto dest: dirty_kept_AddObjectAt dirty_kept_DeleteObject simp: dirty_kept_Reserve)

lemma reachable_all_dirty: "reachable f \<Longrightarrow> list_all dirty (xref f)"
proof (induction rule: reachable.induct)
  case reachable_new
  show ?case
    by (simp add: NewFile_def createInitialXref_def writePdfHeader_def PushBack_def)
next
  case (reachable_step f c f')
  from reachable_step.hyps(2) have "dirty_kept (xref f) (xref f')" by (rule dirty_kept_step)
  with reachable_step.IH show ?case by (auto simp: dirty_kept_def list_all_length)
qed

subsection \<open>The first entry\<close>

lemma slot0_ok_Reserve: "slot0_ok (xref f) \<Longrightarrow> slot0_ok (xref (fst (ReserveObjectNumber f ob)))"
  using find_unused_ge [of 1 "xref f"]
  by (auto simp: slot0_ok_def ReserveObjectNumber_def Let_def PushBack_def nth_append nth_update_if)

lemma slot0_ok_AddObjectAt:
  "slot0_ok (xref f) \<Longrightarrow> AddObjectAt f object ob = Inr f' \<Longrightarrow> slot0_ok (xref f')"
  by (auto simp: slot0_ok_def AddObjectAt_def At_def nth_update_if split: if_splits)

lemma slot0_ok_DeleteObject:
  "slot0_ok (xref f) \<Longrightarrow> DeleteObject f object = Inr f' \<Longrightarrow> slot0_ok (xref f')"
  by (auto simp: slot0_ok_def DeleteObject_def At_def Let_def nth_update_if split: if_splits)

lemma slot0_ok_step: "slot0_ok (xref f) \<Longrightarrow> step f c = Inr f' \<Longrightarrow> slot0_ok (xref f')"
proof (cases c)
  case (CallAddObject ob)
  assume a: "slot0_ok (xref f)" and s: "step f c = Inr f'"
  obtain f1 n where r: "ReserveObjectNumber f ob = (f1, n)" by (cases "ReserveObjectNumber f ob")
  with a slot0_ok_Reserve [of f ob] have "slot0_ok (xref f1)" by simp
  moreover from s CallAddObject r have "AddObjectAt f1 n ob = Inr f'"
    by (auto simp: AddObject_def split: sum.splits)
  ultimately show ?thesis by (rule slot0_ok_AddObjectAt)
qed (auto dest: slot0_ok_Reserve slot0_ok_AddObjectAt slot0_ok_DeleteObject xref_Close)

lemma reachable_slot0_ok: "reachable f \<Longrightarrow> slot0_ok (xref f)"
proof (induction rule: reachable.induct)
  case reachable_new
  show ?case
    by (simp add: NewFile_def createInitialXref_def writePdfHeader_def PushBack_def slot0_ok_def)
next
  case (reachable_step f c f')
  then show ?case by (auto dest: slot0_ok_step)
qed

subsection \<open>Runs\<close>

lemma run_reachable: "reachable f \<Longrightarrow> run f cs = Inr f' \<Longrightarrow> reachable f'"
proof (induction cs arbitrary: f)
  case Nil
  then show ?case by simp
next
  case (Cons c cs)
  then show ?case by (auto split: sum.splits intro: reachable_step)
qed

subsection \<open>The segments that writeXref writes\<close>

lemma write_entries_ok:
  "stop \<le> length xs \<Longrightarrow>
   write_entries xs i stop w = Inr (w @ concat (map Serialize (take (stop - i) (drop i xs))))"
proof (induction xs i stop w rule: write_entries.induct)
  case (1 xs i stop w)
  show ?case
  proof (cases "i < stop")
    case True
    with "1.prems" have i: "i < length xs" by simp
    from True have "stop - i = Suc (stop - (i + 1))" by simp
    moreover from i have "drop i xs = xs ! i # drop (i + 1) xs"
      by (simp add: Cons_nth_drop_Suc)
    ultimately have "take (stop - i) (drop i xs) = xs ! i # take (stop - (i + 1)) (drop (i + 1) xs)"
      by simp
    with True i "1.IH" [of "xs ! i"] "1.prems" show ?thesis
      by (subst write_entries.simps) (simp add: At_def)
  next
    case False
    then show ?thesis by (subst write_entries.simps) simp
  qed
qed

lemma skip_clean_stop: "length xs \<le> i \<or> dirty (xs ! i) \<Longrightarrow> skip_clean xs i = i"
  by (subst skip_clean.simps) auto

lemma count_dirty_all:
  "list_all dirty xs \<Longrightarrow> count_dirty xs i len = len + (length xs - i)"
proof (induction xs i len rule: count_dirty.induct)
  case (1 xs i len)
  show ?case
  proof (cases "i < length xs")
    case True
    with "1.prems" have "dirty (xs ! i)" by (simp add: list_all_length)
    with True "1" show ?thesis by (subst count_dirty.simps) simp
  next
    case False
    then show ?thesis by (subst count_dirty.simps) simp
  qed
qed

lemma writeXref_all_dirty:
  assumes "list_all dirty xs" and "xs \<noteq> []"
  shows "writeXref_loop xs (nextSegment xs 0) w =
         Inr (w @ fmt_d 0 @ '' '' @ fmt_d (length xs) @ [CHR 0x0A] @ concat (map Serialize xs))"
proof -
  from assms have d0: "dirty (xs ! 0)" by (cases xs) simp_all
  then have first: "nextSegment xs 0 = (0, length xs)"
    using assms by (simp add: nextSegment_def skip_clean_stop count_dirty_all)
  have last: "nextSegment xs (length xs) = (length xs, 0)"
    using assms by (simp add: nextSegment_def skip_clean_stop count_dirty_all)
  have stop: "writeXref_loop xs (length xs, 0) v = Inr v" for v
    by (subst writeXref_loop.simps) simp
  show ?thesis
    unfolding first using assms(2)
    by (subst writeXref_loop.simps) (simp add: write_entries_ok last stop)
qed

lemma count_dirty_run_length: "count_dirty xs i len = len + run_length xs i"
proof (induction xs i len rule: count_dirty.induct)
  case (1 xs i len)
  show ?case
  proof (cases "i < length xs \<and> dirty (xs ! i)")
    case True
    then have "drop i xs = xs ! i # drop (i + 1) xs" by (simp add: Cons_nth_drop_Suc)
    with True have "run_length xs i = 1 + run_length xs (i + 1)"
      by (simp add: run_length_def)
    with True "1.IH" show ?thesis by (subst count_dirty.simps) simp
  next
    case False
    have "run_length xs i = 0"
    proof (cases "i < length xs")
      case True
      with False have nd: "\<not> dirty (xs ! i)" by simp
      from True have "drop i xs = xs ! i # drop (i + 1) xs" by (simp add: Cons_nth_drop_Suc)
      with nd show ?thesis by (simp add: run_length_def)
    next
      case False
      then show ?thesis by (simp add: run_length_def)
    qed
    with False show ?thesis by (subst count_dirty.simps) auto
  qed
qed

lemma skip_clean_skipped: "p \<le> j \<Longrightarrow> j < skip_clean xs p \<Longrightarrow> \<not> dirty (xs ! j)"
proof (induction xs p rule: skip_clean.induct)
  case (1 xs i)
  show ?case
  proof (cases "i < length xs \<and> \<not> dirty (xs ! i)")
    case True
    then have eq: "skip_clean xs i = skip_clean xs (i + 1)"
      by (subst skip_clean.simps) simp
    show ?thesis
    proof (cases "j = i")
      case True
      with \<open>i < length xs \<and> \<not> dirty (xs ! i)\<close> show ?thesis by simp
    next
      case False
      with "1.prems" eq True "1.IH" show ?thesis by simp
    qed
  next
    case False
    then have "skip_clean xs i = i" by (subst skip_clean.simps) auto
    with "1.prems" show ?thesis by simp
  qed
qed

lemma run_length_le: "s + run_length xs s \<le> max s (length xs)"
  using length_takeWhile_le [of dirty "drop s xs"] by (simp add: run_length_def)

lemma run_length_dirty: "j < run_length xs s \<Longrightarrow> dirty (xs ! (s + j))"
proof -
  assume j: "j < run_length xs s"
  then have "takeWhile dirty (drop s xs) ! j \<in> set (takeWhile dirty (drop s xs))"
    by (simp add: run_length_def)
  then have "dirty (takeWhile dirty (drop s xs) ! j)" by (rule set_takeWhileD [THEN conjunct2])
  moreover from j have "takeWhile dirty (drop s xs) ! j = drop s xs ! j"
    by (simp add: run_length_def takeWhile_nth)
  moreover from j have "j < length (drop s xs)"
    using length_takeWhile_le [of dirty "drop s xs"] by (simp add: run_length_def)
  ultimately show ?thesis by simp
qed

lemma run_length_end:
  "s + run_length xs s < length xs \<Longrightarrow> \<not> dirty (xs ! (s + run_length xs s))"
proof -
  assume "s + run_length xs s < length xs"
  then have "length (takeWhile dirty (drop s xs)) < length (drop s xs)"
    by (simp add: run_length_def)
  then have "\<not> dirty (drop s xs ! length (takeWhile dirty (drop s xs)))"
    by (rule nth_length_takeWhile)
  moreover assume "s + run_length xs s < length xs"
  ultimately show ?thesis by (simp add: run_length_def)
qed

lemma run_length_pos: "s < length xs \<Longrightarrow> dirty (xs ! s) \<Longrightarrow> 0 < run_length xs s"
  using count_dirty_pos [of s xs] by (simp add: count_dirty_run_length)

lemma segments_from_end: "length xs \<le> p \<Longrightarrow> segments_from xs p = []"
  by (simp add: segments_from_def)

lemma segments_from_clean:
  assumes "\<forall>j. p \<le> j \<and> j < q \<longrightarrow> \<not> is_segment_start xs j" and "p \<le> q" and "q \<le> length xs"
  shows "segments_from xs p = segments_from xs q"
proof -
  from assms(2,3) have "[p..<length xs] = [p..<q] @ [q..<length xs]"
    by (metis le_Suc_ex upt_add_eq_append)
  moreover from assms(1) have "filter (is_segment_start xs) [p..<q] = []"
    by (auto simp: filter_empty_conv)
  ultimately show ?thesis by (simp add: segments_from_def)
qed

lemma segments_from_start:
  assumes "s < length xs" and "is_segment_start xs s"
  shows "segments_from xs s = (s, run_length xs s) # segments_from xs (s + run_length xs s)"
proof -
  let ?l = "run_length xs s"
  from assms have d: "dirty (xs ! s)" by (simp add: is_segment_start_def)
  with assms(1) have pos: "0 < ?l" by (rule run_length_pos)
  from run_length_le [of s xs] assms(1) have le: "s + ?l \<le> length xs" by simp
  have inner: "\<forall>j. Suc s \<le> j \<and> j < s + ?l \<longrightarrow> \<not> is_segment_start xs j"
  proof (intro allI impI)
    fix j
    assume j: "Suc s \<le> j \<and> j < s + ?l"
    then have "j - 1 - s < ?l" by arith
    then have "dirty (xs ! (s + (j - 1 - s)))" by (rule run_length_dirty)
    moreover from j have "s + (j - 1 - s) = j - 1" by arith
    ultimately show "\<not> is_segment_start xs j" using j by (simp add: is_segment_start_def)
  qed
  from assms(1) have "[s..<length xs] = s # [Suc s..<length xs]" by (simp add: upt_rec)
  with assms(2) have "segments_from xs s = (s, ?l) # segments_from xs (Suc s)"
    by (simp add: segments_from_def)
  moreover from inner pos le have "segments_from xs (Suc s) = segments_from xs (s + ?l)"
    by (intro segments_from_clean) auto
  ultimately show ?thesis by simp
qed

lemma writeXref_loop_from:
  assumes "p \<le> length xs"
    and "p = 0 \<or> p = length xs \<or> \<not> dirty (xs ! (p - 1)) \<or> \<not> dirty (xs ! p)"
  shows "writeXref_loop xs (nextSegment xs p) w =
         Inr (w @ concat (map (segment_text Serialize xs) (segments_from xs p)))"
  using assms
proof (induction "length xs - p" arbitrary: p w rule: less_induct)
  case less
  let ?s = "skip_clean xs p"
  let ?l = "run_length xs ?s"
  have ns: "nextSegment xs p = (?s, ?l)"
    by (simp add: nextSegment_def count_dirty_run_length Let_def)
  have ge: "p \<le> ?s" by (rule skip_clean_ge)
  have le: "?s \<le> length xs" using less.prems(1) by (rule skip_clean_le)
  have skipped: "\<forall>j. p \<le> j \<and> j < ?s \<longrightarrow> \<not> is_segment_start xs j"
    using skip_clean_skipped [of p _ xs] by (auto simp: is_segment_start_def)
  from skipped ge le have from_p: "segments_from xs p = segments_from xs ?s"
    by (rule segments_from_clean)
  show ?case
  proof (cases "?s < length xs")
    case False
    with le have "segments_from xs ?s = []" by (simp add: segments_from_end)
    with False from_p show ?thesis
      unfolding ns by (subst writeXref_loop.simps) simp
  next
    case True
    then have d: "dirty (xs ! ?s)" by (rule skip_clean_dirty)
    have start: "is_segment_start xs ?s"
    proof (cases "?s = p")
      case True
      with d less.prems(2) \<open>?s < length xs\<close> show ?thesis
        by (auto simp: is_segment_start_def)
    next
      case False
      with ge have "p \<le> ?s - 1" "?s - 1 < ?s" by simp_all
      then have "\<not> dirty (xs ! (?s - 1))" by (rule skip_clean_skipped)
      with d show ?thesis by (simp add: is_segment_start_def)
    qed
    from True d have pos: "0 < ?l" by (rule run_length_pos)
    from run_length_le [of ?s xs] True have le2: "?s + ?l \<le> length xs" by simp
    have bound: "?s + ?l = 0 \<or> ?s + ?l = length xs \<or> \<not> dirty (xs ! (?s + ?l - 1))
                  \<or> \<not> dirty (xs ! (?s + ?l))"
      using run_length_end [of ?s xs] le2 by (cases "?s + ?l = length xs") auto
    from pos ge True have "length xs - (?s + ?l) < length xs - p" by arith
    from less.hyps [OF this le2 bound]
    have rest: "writeXref_loop xs (nextSegment xs (?s + ?l)) v =
                Inr (v @ concat (map (segment_text Serialize xs) (segments_from xs (?s + ?l))))"
      for v .
    from True start have seg: "segments_from xs ?s = (?s, ?l) # segments_from xs (?s + ?l)"
      by (rule segments_from_start)
    show ?thesis
      unfolding ns using True le2
      by (subst writeXref_loop.simps)
        (simp add: write_entries_ok rest from_p seg segment_text_def)
  qed
qed

lemma writeXref_segments:
  "writeXref f =
     Inr (f\<lparr>out := out f @ ''xref'' @ [CHR 0x0A] @
                    concat (map (segment_text Serialize (xref f)) (spec_segments (xref f)))\<rparr>)"
  using writeXref_loop_from [of 0 "xref f" "out f @ ''xref'' @ [CHR 0x0A]"]
  by (simp add: writeXref_def spec_segments_def)

lemma Close_result:
  "Close f = Inr (f\<lparr>out := out f @ xref_text (xref f), closed := True\<rparr>)"
  by (simp add: Close_def writeXref_segments xref_text_def)

lemma step_never_AlreadyClosed: "step f c \<noteq> Inl AlreadyClosed"
proof (cases c)
  case (CallAddObject ob)
  then show ?thesis
    by (cases "ReserveObjectNumber f ob")
      (auto simp: AddObject_def AddObjectAt_def At_def split: sum.splits if_splits)
qed (auto simp: AddObjectAt_def DeleteObject_def At_def Let_def Close_result split: if_splits)

lemma spec_segments_runs: "set (spec_segments xs) = {(s, l). is_dirty_run xs s l}"
proof (intro set_eqI iffI)
  fix x
  assume "x \<in> set (spec_segments xs)"
  then obtain s where x: "x = (s, run_length xs s)" and s: "s < length xs"
    and st: "is_segment_start xs s"
    by (auto simp: spec_segments_def segments_from_def)
  let ?l = "run_length xs s"
  from st have d: "dirty (xs ! s)" by (simp add: is_segment_start_def)
  with s have "0 < ?l" by (rule run_length_pos)
  moreover from run_length_le [of s xs] s have "s + ?l \<le> length xs" by simp
  moreover have "list_all dirty (take ?l (drop s xs))"
  proof -
    have "take ?l (drop s xs) = takeWhile dirty (drop s xs)"
      unfolding run_length_def by (rule takeWhile_eq_take [symmetric])
    then show ?thesis by (simp add: list_all_iff) (meson set_takeWhileD)
  qed
  moreover from st have "s = 0 \<or> \<not> dirty (xs ! (s - 1))" by (simp add: is_segment_start_def)
  moreover have "s + ?l = length xs \<or> \<not> dirty (xs ! (s + ?l))"
    using run_length_end [of s xs] \<open>s + ?l \<le> length xs\<close> by (cases "s + ?l = length xs") auto
  ultimately show "x \<in> {(s, l). is_dirty_run xs s l}" by (simp add: x is_dirty_run_def)
next
  fix x
  assume "x \<in> {(s, l). is_dirty_run xs s l}"
  then obtain s l where x: "x = (s, l)" and r: "is_dirty_run xs s l" by auto
  from r have pos: "0 < l" and le: "s + l \<le> length xs"
    and al: "list_all dirty (take l (drop s xs))"
    and left: "s = 0 \<or> \<not> dirty (xs ! (s - 1))"
    and right: "s + l = length xs \<or> \<not> dirty (xs ! (s + l))"
    by (simp_all add: is_dirty_run_def)
  from pos le have s: "s < length xs" by simp
  have dj: "dirty (drop s xs ! i)" if "i < l" for i
  proof -
    from that le have "i < length (take l (drop s xs))" by simp
    with al have "dirty (take l (drop s xs) ! i)" by (simp add: list_all_length)
    with that show ?thesis by simp
  qed
  from dj [of 0] pos s have d: "dirty (xs ! s)" by simp
  have "takeWhile dirty (drop s xs) = take l (drop s xs)"
  proof (rule takeWhile_eq_take_P_nth)
    fix i assume "i < l" "i < length (drop s xs)"
    then show "dirty (drop s xs ! i)" using dj by simp
  next
    assume "l < length (drop s xs)"
    with right le show "\<not> dirty (drop s xs ! l)" by auto
  qed
  with le have "run_length xs s = l" by (simp add: run_length_def)
  moreover from d left have "is_segment_start xs s" by (simp add: is_segment_start_def)
  ultimately show "x \<in> set (spec_segments xs)"
    using s by (auto simp: x spec_segments_def segments_from_def)
qed

lemma spec_segments_ascending:
  "sorted_wrt (\<lambda>a b. fst a + snd a < fst b) (spec_segments xs)"
proof -
  have "sorted_wrt (<) (filter (is_segment_start xs) [0..<length xs])"
    by (rule sorted_wrt_filter) simp
  then have "sorted_wrt (\<lambda>s t. s + run_length xs s < t) (filter (is_segment_start xs) [0..<length xs])"
  proof (rule sorted_wrt_mono_rel [rotated])
    fix s t
    assume "s \<in> set (filter (is_segment_start xs) [0..<length xs])"
      and "t \<in> set (filter (is_segment_start xs) [0..<length xs])" and lt: "s < t"
    then have t: "is_segment_start xs t" by simp
    with lt have nd: "\<not> dirty (xs ! (t - 1))" by (auto simp: is_segment_start_def)
    show "s + run_length xs s < t"
    proof (rule ccontr)
      assume "\<not> s + run_length xs s < t"
      with lt have "t - 1 - s < run_length xs s" by arith
      then have "dirty (xs ! (s + (t - 1 - s)))" by (rule run_length_dirty)
      moreover from lt have "s + (t - 1 - s) = t - 1" by arith
      ultimately show False using nd by simp
    qed
  qed
  then show ?thesis
    by (simp add: spec_segments_def segments_from_def sorted_wrt_map)
qed

lemma spec_segments_none: "\<not> list_ex dirty xs \<Longrightarrow> spec_segments xs = []"
  by (auto simp: spec_segments_def segments_from_def filter_empty_conv is_segment_start_def
      list_ex_iff)

subsection \<open>Records of fixed width\<close>

lemma fmt_0d_Suc:
  "fmt_0d (Suc w) n =
     (if n < 10 then replicate w (CHR ''0'') @ [digit_char n]
      else fmt_0d w (n div 10) @ [digit_char (n mod 10)])"
proof (cases "n < 10")
  case True
  then have "fmt_d n = [digit_char n]" by (subst fmt_d.simps) simp
  with True show ?thesis by (simp add: fmt_0d_def)
next
  case False
  then have "fmt_d n = fmt_d (n div 10) @ [digit_char (n mod 10)]" by (subst fmt_d.simps) simp
  with False show ?thesis by (simp add: fmt_0d_def)
qed

lemma fixed_digits_zero: "fixed_digits w 0 = replicate w (CHR ''0'')"
  by (induction w) (simp_all add: digit_char_def replicate_append_same)

lemma fmt_0d_fixed: "n < 10 ^ Suc w \<Longrightarrow> fmt_0d (Suc w) n = fixed_digits (Suc w) n"
proof (induction w arbitrary: n)
  case 0
  then show ?case by (simp add: fmt_0d_Suc)
next
  case (Suc w)
  show ?case
  proof (cases "n < 10")
    case True
    then show ?thesis by (simp add: fmt_0d_Suc [of "Suc w"] fixed_digits_zero)
  next
    case False
    from Suc.prems have "n div 10 < 10 ^ Suc w" by (simp add: less_mult_imp_div_less)
    then have "fmt_0d (Suc w) (n div 10) = fixed_digits (Suc w) (n div 10)" by (rule Suc.IH)
    with False show ?thesis by (simp add: fmt_0d_Suc [of "Suc w"])
  qed
qed

lemma Serialize_fixed:
  assumes "unat (byteOffset e) < 10 ^ 10"
  shows "Serialize e = spec_record e"
proof -
  have "unat (entry_generation e) < 2 ^ 16"
    using unsigned_less [of "entry_generation e", where ?'a = nat] by simp
  then have "unat (entry_generation e) < 10 ^ Suc 4" by simp
  then have g: "fmt_0d (Suc 4) (unat (entry_generation e)) = fixed_digits (Suc 4) (unat (entry_generation e))"
    by (rule fmt_0d_fixed)
  from assms have "unat (byteOffset e) < 10 ^ Suc 9" by simp
  then have b: "fmt_0d (Suc 9) (unat (byteOffset e)) = fixed_digits (Suc 9) (unat (byteOffset e))"
    by (rule fmt_0d_fixed)
  have five: "(5::nat) = Suc 4" and ten: "(10::nat) = Suc 9" by simp_all
  show ?thesis
    unfolding Serialize_def spec_record_def
    by (subst (1 2) ten, subst (1 2) five) (simp only: g b, simp)
qed

lemma segment_text_fixed:
  assumes "\<forall>e \<in> set xs. unat (byteOffset e) < 10 ^ 10"
  shows "segment_text Serialize xs seg = segment_text spec_record xs seg"
proof -
  have "set (take (snd seg) (drop (fst seg) xs)) \<subseteq> set xs"
    by (meson set_drop_subset set_take_subset subset_trans)
  with assms have "map Serialize (take (snd seg) (drop (fst seg) xs))
                 = map spec_record (take (snd seg) (drop (fst seg) xs))"
    by (intro map_cong refl Serialize_fixed) auto
  then have "concat (map Serialize (take (snd seg) (drop (fst seg) xs)))
           = concat (map spec_record (take (snd seg) (drop (fst seg) xs)))"
    by (rule arg_cong)
  then show ?thesis by (simp only: segment_text_def)
qed

subsection \<open>Evaluation on concrete tables\<close>

lemma replicate_num: "replicate (numeral k) x = x # replicate (pred_numeral k) x"
  by (simp add: numeral_eq_Suc)

lemma fixed_digits_num:
  "fixed_digits (numeral k) n = fixed_digits (pred_numeral k) (n div 10) @ [digit_char (n mod 10)]"
  by (subst numeral_eq_Suc) simp

lemma upt_1_3: "[1..<3] = [1, 2]"
  by (simp add: upt_rec)

lemmas store_eval =
  NewFile_def createInitialXref_def writePdfHeader_def PushBack_def At_def position_def
  ReserveObjectNumber_def AddObjectAt_def AddObject_def DeleteObject_def
  find_unused.simps Let_def fmt_d.simps digit_char_def

lemmas entry_eval = Serialize_def fmt_0d_def fmt_d.simps digit_char_def replicate_num

lemmas index_eval =
  Close_def writeXref_def writeXref_loop.simps nextSegment_def skip_clean.simps
  count_dirty.simps write_entries.simps At_def Let_def entry_eval

lemmas spec_eval =
  spec_index_def spec_segments_def segments_from_def is_segment_start_def run_length_def
  segment_text_def spec_record_def fixed_digits_num fmt_d.simps digit_char_def

subsection \<open>Reachable tables\<close>

lemma run_cycled_1:
  "run NewFile [CallReserve Null, CallDeleteObject \<lparr>number = 1, generation = 0\<rparr>] = Inr (cycled 1)"
  by (simp add: store_eval cycled_def)

lemma gen_below: "k < 65535 \<Longrightarrow> (of_nat k :: 16 word) < 65535"
  by (simp add: word_less_nat_alt unat_of_nat)

lemma run_cycled_Suc:
  assumes "k < 65535"
  shows "run (cycled k) [CallReserve Null, CallDeleteObject \<lparr>number = 1, generation = of_nat k\<rparr>]
         = Inr (cycled (Suc k))"
  using gen_below [OF assms] by (simp add: store_eval cycled_def)

lemma reachable_cycled: "k < 65535 \<Longrightarrow> reachable (cycled (Suc k))"
proof (induction k)
  case 0
  show ?case using run_reachable [OF reachable_new run_cycled_1] by simp
next
  case (Suc k)
  then have "reachable (cycled (Suc k))" by simp
  moreover from Suc.prems have "Suc k < 65535" by simp
  ultimately show ?case using run_reachable run_cycled_Suc by blast
qed

lemma reachable_retired_free: "reachable retired_free"
proof -
  have "cycled (Suc 65534) = retired_free" by (simp add: cycled_def retired_free_def)
  with reachable_cycled [of 65534] show ?thesis by simp
qed

lemma Reserve_retired_free:
  "ReserveObjectNumber retired_free ob = (retired_in_use, \<lparr>number = 1, generation = 65535\<rparr>)"
  by (simp add: store_eval retired_free_def retired_in_use_def)

lemma Reserve_retired_in_use:
  "ReserveObjectNumber retired_in_use ob = (retired_in_use, \<lparr>number = 1, generation = 65535\<rparr>)"
  by (simp add: store_eval retired_in_use_def)

lemma reachable_retired_in_use: "reachable retired_in_use"
  using reachable_step [OF reachable_retired_free, of "CallReserve Null" retired_in_use]
  by (simp add: Reserve_retired_free)

lemma run_three_slots:
  "run NewFile [CallAddObject Null, CallReserve Null,
                CallDeleteObject \<lparr>number = 2, generation = 0\<rparr>] = Inr three_slots"
  by (simp add: store_eval three_slots_def)

lemma reachable_three_slots: "reachable three_slots"
  using run_reachable [OF reachable_new run_three_slots] .

lemma run_rewritten:
  "run NewFile [CallReserve Null, CallDeleteObject \<lparr>number = 1, generation = 0\<rparr>,
                CallReserve Null, CallAddObjectAt \<lparr>number = 1, generation = 1\<rparr> Null]
   = Inr rewritten"
  by (simp add: store_eval rewritten_def)

lemma run_two_live: "run NewFile [CallReserve Null, CallReserve Null] = Inr two_live"
  by (simp add: store_eval two_live_def)

lemma reachable_two_live: "reachable two_live"
  using run_reachable [OF reachable_new run_two_live] .

lemma run_first_freed:
  "run NewFile [CallReserve Null, CallReserve Null,
                CallDeleteObject \<lparr>number = 1, generation = 0\<rparr>] = Inr first_freed"
  by (simp add: store_eval first_freed_def)

lemma reachable_first_freed: "reachable first_freed"
  using run_reachable [OF reachable_new run_first_freed] .

lemma Delete_first_freed:
  "DeleteObject first_freed \<lparr>number = 2, generation = 0\<rparr> = Inr both_freed"
  by (simp add: store_eval first_freed_def both_freed_def)

lemma run_linked_free:
  "run NewFile [CallReserve Null, CallReserve Null,
                CallDeleteObject \<lparr>number = 2, generation = 0\<rparr>,
                CallDeleteObject \<lparr>number = 1, generation = 0\<rparr>] = Inr linked_free"
  by (simp add: store_eval linked_free_def)

lemma reachable_linked_free: "reachable linked_free"
  using run_reachable [OF reachable_new run_linked_free] .

lemma run_closed_store: "run NewFile [CallReserve Null, CallClose] = Inr closed_store"
  by (simp add: store_eval index_eval closed_store_def)

section \<open>Claims\<close>

subsection \<open>C1: retired object numbers\<close>

text \<open>
  C1 says that a number whose entry has generation 65535 is never returned by
  \<open>ReserveObjectNumber\<close> again. The scan stops at such an entry and the number is returned:
  in the reachable table \<open>retired_free\<close> entry 1 has generation 65535, and the next
  reservation returns number 1 with generation 65535.
\<close>

theorem retired_number_reserved_again:
  "reachable retired_free \<and>
   entry_generation (xref retired_free ! 1) = 65535 \<and>
   snd (ReserveObjectNumber retired_free Null) = \<lparr>number = 1, generation = 65535\<rparr>"
  using reachable_retired_free by (simp add: Reserve_retired_free) (simp add: retired_free_def)

subsection \<open>C2: uniqueness of reserved object numbers\<close>

text \<open>
  C2 says that reservations with no deletion between them return distinct object
  numbers. From the reachable table \<open>retired_free\<close> two reservations in a row return the
  same object number: the scan stops at the entry with generation 65535 although the
  first reservation has marked it in use.
\<close>

theorem same_number_reserved_twice:
  "reachable retired_free \<and>
   ReserveObjectNumber retired_free Null = (retired_in_use, \<lparr>number = 1, generation = 65535\<rparr>) \<and>
   ReserveObjectNumber retired_in_use Null = (retired_in_use, \<lparr>number = 1, generation = 65535\<rparr>)"
  using reachable_retired_free by (simp add: Reserve_retired_free Reserve_retired_in_use)

subsection \<open>C3: the generation check of DeleteObject\<close>

text \<open>
  C3, as amended. For an object number that indexes an entry of the table,
  \<open>DeleteObject\<close> succeeds exactly when the generations are equal and fails with
  \<open>GenerationMismatch\<close> exactly when they differ; after a successful deletion with a
  generation below 65535, the same deletion repeated fails with \<open>GenerationMismatch\<close>.
\<close>

theorem DeleteObject_generation_check:
  assumes "unat (number object) < length (xref f)"
  shows "(DeleteObject f object = Inl GenerationMismatch \<longleftrightarrow>
            generation object \<noteq> entry_generation (xref f ! unat (number object))) \<and>
         ((\<exists>f'. DeleteObject f object = Inr f') \<longleftrightarrow>
            generation object = entry_generation (xref f ! unat (number object))) \<and>
         (\<forall>f'. DeleteObject f object = Inr f' \<and> generation object < 65535 \<longrightarrow>
            DeleteObject f' object = Inl GenerationMismatch)"
proof (intro conjI allI impI)
  show "DeleteObject f object = Inl GenerationMismatch \<longleftrightarrow>
            generation object \<noteq> entry_generation (xref f ! unat (number object))"
    using assms by (simp add: DeleteObject_def At_def Let_def)
  show "(\<exists>f'. DeleteObject f object = Inr f') \<longleftrightarrow>
            generation object = entry_generation (xref f ! unat (number object))"
    using assms by (simp add: DeleteObject_def At_def Let_def)
next
  fix f'
  assume a: "DeleteObject f object = Inr f' \<and> generation object < 65535"
  from a DeleteObject_result [of f object f']
  have len: "unat (number object) < length (xref f')"
    and gen: "entry_generation (xref f' ! unat (number object)) = generation object + 1"
    by simp_all
  from a have "generation object + 1 \<noteq> generation object" by simp
  with len gen show "DeleteObject f' object = Inl GenerationMismatch"
    by (simp add: DeleteObject_def At_def Let_def)
qed

text \<open>
  C3 as stated fails at generation 65535, where the generation is not incremented:
  deleting the first entry of the new store succeeds and leaves the store as it was, so
  the deletion repeated succeeds again; and the reserved entry 1 of \<open>retired_in_use\<close> is
  deleted twice in a row, both times with success.
\<close>

theorem double_delete_at_sentinel:
  "reachable NewFile \<and>
   DeleteObject NewFile \<lparr>number = 0, generation = 65535\<rparr> = Inr NewFile \<and>
   reachable retired_in_use \<and>
   DeleteObject retired_in_use \<lparr>number = 1, generation = 65535\<rparr> = Inr retired_free \<and>
   DeleteObject retired_free \<lparr>number = 1, generation = 65535\<rparr> =
     Inr (retired_free\<lparr>xref :=
       [\<lparr>byteOffset = 1, entry_generation = 65535, inUse = False, dirty = True\<rparr>,
        \<lparr>byteOffset = 1, entry_generation = 65535, inUse = False, dirty = True\<rparr>]\<rparr>)"
  using reachable_new reachable_retired_in_use
  by (simp add: store_eval retired_free_def retired_in_use_def)

text \<open>
  C3 on the table \<open>three_slots\<close>: a wrong generation is refused, the right one is
  accepted, and the deletion repeated is refused.
\<close>

theorem DeleteObject_generation_check_witness:
  "unat (number \<lparr>number = 1, generation = 0\<rparr>) < length (xref three_slots) \<and>
   DeleteObject three_slots \<lparr>number = 1, generation = 7\<rparr> = Inl GenerationMismatch \<and>
   DeleteObject three_slots \<lparr>number = 1, generation = 0\<rparr> =
     Inr (three_slots\<lparr>xref :=
       [\<lparr>byteOffset = 1, entry_generation = 65535, inUse = False, dirty = True\<rparr>,
        \<lparr>byteOffset = 2, entry_generation = 1, inUse = False, dirty = True\<rparr>,
        \<lparr>byteOffset = 0, entry_generation = 1, inUse = False, dirty = True\<rparr>]\<rparr>) \<and>
   DeleteObject (three_slots\<lparr>xref :=
       [\<lparr>byteOffset = 1, entry_generation = 65535, inUse = False, dirty = True\<rparr>,
        \<lparr>byteOffset = 2, entry_generation = 1, inUse = False, dirty = True\<rparr>,
        \<lparr>byteOffset = 0, entry_generation = 1, inUse = False, dirty = True\<rparr>]\<rparr>)
     \<lparr>number = 1, generation = 0\<rparr> = Inl GenerationMismatch"
proof -
  have len: "unat (number \<lparr>number = 1, generation = 0\<rparr>) < length (xref three_slots)"
    by (simp add: three_slots_def)
  have len7: "unat (number \<lparr>number = 1, generation = 7\<rparr>) < length (xref three_slots)"
    by (simp add: three_slots_def)
  have del: "DeleteObject three_slots \<lparr>number = 1, generation = 0\<rparr> =
     Inr (three_slots\<lparr>xref :=
       [\<lparr>byteOffset = 1, entry_generation = 65535, inUse = False, dirty = True\<rparr>,
        \<lparr>byteOffset = 2, entry_generation = 1, inUse = False, dirty = True\<rparr>,
        \<lparr>byteOffset = 0, entry_generation = 1, inUse = False, dirty = True\<rparr>]\<rparr>)"
    by (simp add: store_eval three_slots_def)
  have stale: "generation \<lparr>number = 1, generation = 7\<rparr>
                 \<noteq> entry_generation (xref three_slots ! unat (number \<lparr>number = 1, generation = 7\<rparr>))"
    by (simp add: three_slots_def)
  from DeleteObject_generation_check [OF len7] stale
  have "DeleteObject three_slots \<lparr>number = 1, generation = 7\<rparr> = Inl GenerationMismatch"
    by blast
  moreover from DeleteObject_generation_check [OF len] del
  have "DeleteObject (three_slots\<lparr>xref :=
       [\<lparr>byteOffset = 1, entry_generation = 65535, inUse = False, dirty = True\<rparr>,
        \<lparr>byteOffset = 2, entry_generation = 1, inUse = False, dirty = True\<rparr>,
        \<lparr>byteOffset = 0, entry_generation = 1, inUse = False, dirty = True\<rparr>]\<rparr>)
     \<lparr>number = 1, generation = 0\<rparr> = Inl GenerationMismatch"
    by simp
  ultimately show ?thesis using len del by simp
qed

subsection \<open>C4: stale handles\<close>

text \<open>
  C4, as amended. With an object number that indexes an entry and a generation below the
  entry's generation, \<open>DeleteObject\<close> fails with \<open>GenerationMismatch\<close>, and
  \<open>AddObjectAt\<close> fails too: with \<open>AlreadyWritten\<close> when the \<open>byteOffset\<close> of the entry is
  not 0, since that test comes first, and with \<open>GenerationMismatch\<close> when it is 0.
\<close>

theorem stale_handle_rejected:
  assumes "unat (number object) < length (xref f)"
    and "generation object < entry_generation (xref f ! unat (number object))"
  shows "DeleteObject f object = Inl GenerationMismatch \<and>
         AddObjectAt f object ob =
           Inl (if byteOffset (xref f ! unat (number object)) \<noteq> 0
                then AlreadyWritten else GenerationMismatch)"
  using assms by (auto simp: DeleteObject_def AddObjectAt_def At_def Let_def)

text \<open>
  C4 as stated fails for \<open>AddObjectAt\<close>: in the reachable state \<open>rewritten\<close> the handle
  with generation 0 is older than the entry's generation 1, and the failure reported is
  \<open>AlreadyWritten\<close>.
\<close>

theorem stale_write_reports_AlreadyWritten:
  "reachable rewritten \<and>
   unat (number \<lparr>number = 1, generation = 0\<rparr>) < length (xref rewritten) \<and>
   generation \<lparr>number = 1, generation = 0\<rparr> < entry_generation (xref rewritten ! 1) \<and>
   AddObjectAt rewritten \<lparr>number = 1, generation = 0\<rparr> Null = Inl AlreadyWritten"
  using run_reachable [OF reachable_new run_rewritten]
  by (simp add: store_eval rewritten_def)

text \<open>
  C4 on the table \<open>three_slots\<close>: entry 2 has generation 1 and \<open>byteOffset\<close> 0, and the
  handle with generation 0 is refused with \<open>GenerationMismatch\<close> by both functions.
\<close>

theorem stale_handle_rejected_witness:
  "unat (number \<lparr>number = 2, generation = 0\<rparr>) < length (xref three_slots) \<and>
   generation \<lparr>number = 2, generation = 0\<rparr> < entry_generation (xref three_slots ! 2) \<and>
   DeleteObject three_slots \<lparr>number = 2, generation = 0\<rparr> = Inl GenerationMismatch \<and>
   AddObjectAt three_slots \<lparr>number = 2, generation = 0\<rparr> Null = Inl GenerationMismatch"
proof -
  have h1: "unat (number \<lparr>number = 2, generation = 0\<rparr>) < length (xref three_slots)"
    by (simp add: three_slots_def)
  have h2: "generation \<lparr>number = 2, generation = 0\<rparr>
              < entry_generation (xref three_slots ! unat (number \<lparr>number = 2, generation = 0\<rparr>))"
    by (simp add: three_slots_def)
  have bo: "byteOffset (xref three_slots ! unat (number \<lparr>number = 2, generation = 0\<rparr>)) = 0"
    by (simp add: three_slots_def)
  show ?thesis
    using stale_handle_rejected [OF h1 h2, of Null] h1 h2 bo by simp
qed

subsection \<open>C5: single assignment\<close>

text \<open>
  C5 says that the first \<open>AddObjectAt\<close> on a freshly reserved object number never
  fails with \<open>AlreadyWritten\<close>. In the reachable state \<open>linked_free\<close> nothing has been
  written. The reservation returns (1,1) and leaves the link to the next free entry in the
  \<open>byteOffset\<close> of entry 1, so the first \<open>AddObjectAt\<close> with (1,1) fails with
  \<open>AlreadyWritten\<close>, and so does \<open>AddObject\<close>.
\<close>

theorem first_write_fails_AlreadyWritten:
  "reachable linked_free \<and> out linked_free = ''%PDF-1.4'' @ [CHR 0x0A] \<and>
   ReserveObjectNumber linked_free Null = (reserved_linked, \<lparr>number = 1, generation = 1\<rparr>) \<and>
   AddObjectAt reserved_linked \<lparr>number = 1, generation = 1\<rparr> Null = Inl AlreadyWritten \<and>
   AddObject linked_free Null = Inl AlreadyWritten"
  using reachable_linked_free
  by (simp add: store_eval linked_free_def reserved_linked_def)

subsection \<open>C6: calls on a closed store\<close>

text \<open>
  C6, as amended. The store records nothing that \<open>Close\<close> or any other call tests. After
  a \<open>Close\<close> that has completed, a second \<open>Close\<close> succeeds and hands the text of the table to
  the writer once more; no call fails with \<open>AlreadyClosed\<close>; \<open>DeleteObject\<close> succeeds
  exactly when the number indexes an entry and the generations are equal, and
  \<open>AddObjectAt\<close> exactly when moreover the \<open>byteOffset\<close> of the entry is 0.
\<close>

theorem Close_not_guarded:
  assumes "Close g = Inr f"
  shows "closed f \<and> xref f = xref g \<and> out f = out g @ xref_text (xref g) \<and>
         Close f = Inr (f\<lparr>out := out f @ xref_text (xref g)\<rparr>) \<and>
         xref_text (xref g) \<noteq> [] \<and>
         step f c \<noteq> Inl AlreadyClosed \<and>
         ((\<exists>h. DeleteObject f object = Inr h) \<longleftrightarrow>
            unat (number object) < length (xref f) \<and>
            generation object = entry_generation (xref f ! unat (number object))) \<and>
         ((\<exists>h. AddObjectAt f object ob = Inr h) \<longleftrightarrow>
            unat (number object) < length (xref f) \<and>
            byteOffset (xref f ! unat (number object)) = 0 \<and>
            entry_generation (xref f ! unat (number object)) = generation object)"
proof -
  from assms have f: "f = g\<lparr>out := out g @ xref_text (xref g), closed := True\<rparr>"
    by (simp add: Close_result)
  then have c: "closed f" and x: "xref f = xref g" and o: "out f = out g @ xref_text (xref g)"
    by simp_all
  from c x have again: "Close f = Inr (f\<lparr>out := out f @ xref_text (xref g)\<rparr>)"
    by (simp add: Close_result)
  have ne: "xref_text (xref g) \<noteq> []" by (simp add: xref_text_def)
  have del: "(\<exists>h. DeleteObject f object = Inr h) \<longleftrightarrow>
            unat (number object) < length (xref f) \<and>
            generation object = entry_generation (xref f ! unat (number object))"
    by (simp add: DeleteObject_def At_def Let_def)
  have add: "(\<exists>h. AddObjectAt f object ob = Inr h) \<longleftrightarrow>
            unat (number object) < length (xref f) \<and>
            byteOffset (xref f ! unat (number object)) = 0 \<and>
            entry_generation (xref f ! unat (number object)) = generation object"
    by (simp add: AddObjectAt_def At_def)
  from c x o again ne step_never_AlreadyClosed [of f c] del add show ?thesis by blast
qed

text \<open>
  C6 as stated fails on \<open>closed_store\<close>: the second \<open>Close\<close> appends the table again,
  \<open>DeleteObject\<close> succeeds, and \<open>AddObjectAt\<close> and \<open>AddObject\<close> do not fail with
  \<open>AlreadyClosed\<close>.
\<close>

theorem calls_after_Close_accepted:
  "run NewFile [CallReserve Null, CallClose] = Inr closed_store \<and>
   closed closed_store \<and>
   Close closed_store =
     Inr (closed_store\<lparr>out := out closed_store @ ''xref'' @ [CHR 0x0A] @ ''0 2'' @ [CHR 0x0A] @
            ''0000000000 65535 f '' @ [CHR 0x0A] @ ''0000000000 00000 n '' @ [CHR 0x0A]\<rparr>) \<and>
   DeleteObject closed_store \<lparr>number = 1, generation = 0\<rparr> =
     Inr (closed_store\<lparr>xref :=
            [\<lparr>byteOffset = 1, entry_generation = 65535, inUse = False, dirty = True\<rparr>,
             \<lparr>byteOffset = 0, entry_generation = 1, inUse = False, dirty = True\<rparr>]\<rparr>) \<and>
   AddObjectAt closed_store \<lparr>number = 1, generation = 0\<rparr> Null \<noteq> Inl AlreadyClosed \<and>
   AddObject closed_store Null \<noteq> Inl AlreadyClosed"
proof -
  have c: "closed closed_store" by (simp add: closed_store_def)
  have again: "Close closed_store =
     Inr (closed_store\<lparr>out := out closed_store @ ''xref'' @ [CHR 0x0A] @ ''0 2'' @ [CHR 0x0A] @
            ''0000000000 65535 f '' @ [CHR 0x0A] @ ''0000000000 00000 n '' @ [CHR 0x0A]\<rparr>)"
    by (simp add: index_eval closed_store_def)
  have del: "DeleteObject closed_store \<lparr>number = 1, generation = 0\<rparr> =
     Inr (closed_store\<lparr>xref :=
            [\<lparr>byteOffset = 1, entry_generation = 65535, inUse = False, dirty = True\<rparr>,
             \<lparr>byteOffset = 0, entry_generation = 1, inUse = False, dirty = True\<rparr>]\<rparr>)"
    by (simp add: store_eval closed_store_def)
  have add: "AddObjectAt closed_store \<lparr>number = 1, generation = 0\<rparr> Null \<noteq> Inl AlreadyClosed"
    by (simp add: store_eval closed_store_def)
  have fresh: "AddObject closed_store Null \<noteq> Inl AlreadyClosed"
    by (simp add: store_eval closed_store_def)
  from run_closed_store c again del add fresh show ?thesis by blast
qed

text \<open>C6 on the new store: it is closed, and closed again with the table written twice.\<close>

theorem Close_not_guarded_witness:
  "Close NewFile = Inr closed_new \<and> closed closed_new \<and>
   Close closed_new =
     Inr (closed_new\<lparr>out := out closed_new @ ''xref'' @ [CHR 0x0A] @ ''0 1'' @ [CHR 0x0A] @
            ''0000000000 65535 f '' @ [CHR 0x0A]\<rparr>) \<and>
   step closed_new (CallAddObject Null) \<noteq> Inl AlreadyClosed"
proof -
  have cl: "Close NewFile = Inr closed_new"
    by (simp add: store_eval index_eval closed_new_def)
  have idx: "xref_text (xref NewFile) =
               ''xref'' @ [CHR 0x0A] @ ''0 1'' @ [CHR 0x0A] @ ''0000000000 65535 f '' @ [CHR 0x0A]"
    using cl by (simp add: Close_result closed_new_def NewFile_def createInitialXref_def
        writePdfHeader_def PushBack_def)
  from Close_not_guarded [OF cl, of "CallAddObject Null"] cl idx show ?thesis
    by simp
qed

subsection \<open>C7: the first entry and the free list\<close>

text \<open>
  C7 says that the \<open>byteOffset\<close> of the first entry always holds the head of the free
  list. After the calls below the first entry is as the claim says otherwise
  (\<open>slot0_ok\<close>), entry 2 is free, and the \<open>byteOffset\<close> of the first entry is 0, the value
  for an empty free list: the reservation took the free entry with the lowest index and
  copied its link, not the link of the head.
\<close>

theorem free_list_head_lost:
  "run NewFile [CallReserve Null, CallReserve Null,
                CallDeleteObject \<lparr>number = 1, generation = 0\<rparr>,
                CallDeleteObject \<lparr>number = 2, generation = 0\<rparr>,
                CallReserve Null] = Inr head_lost \<and>
   slot0_ok (xref head_lost) \<and>
   byteOffset (xref head_lost ! 0) = 0 \<and>
   free_indices (xref head_lost) = [2] \<and>
   \<not> head_is_free_list_head (xref head_lost)"
  by (simp add: store_eval head_lost_def slot0_ok_def free_indices_def head_is_free_list_head_def
      upt_1_3)

subsection \<open>C8: reuse after release\<close>

text \<open>
  C8, as amended. In a reachable state, after the deletion of an object number whose
  generation is below 65535, when every entry between the first and the deleted one is in
  use with a generation below 65535, the next reservation returns the same number with
  the generation incremented, which is strictly greater. From the new store the first
  reservation returns (1,0), and after writing and deleting it the next returns (1,1).
\<close>

theorem reuse_after_release:
  assumes "reachable f" and "DeleteObject f object = Inr f'" and "generation object < 65535"
    and "\<forall>i. 1 \<le> i \<and> i < unat (number object) \<longrightarrow>
              inUse (xref f ! i) \<and> entry_generation (xref f ! i) < 65535"
  shows "snd (ReserveObjectNumber f' ob) =
           \<lparr>number = number object, generation = generation object + 1\<rparr> \<and>
         generation object < generation object + 1 \<and>
         snd (ReserveObjectNumber NewFile ob) = \<lparr>number = 1, generation = 0\<rparr> \<and>
         (\<exists>f3. run NewFile [CallReserve ob, CallAddObjectAt \<lparr>number = 1, generation = 0\<rparr> ob,
                             CallDeleteObject \<lparr>number = 1, generation = 0\<rparr>] = Inr f3 \<and>
               snd (ReserveObjectNumber f3 ob) = \<lparr>number = 1, generation = 1\<rparr>)"
proof (intro conjI)
  let ?n = "unat (number object)"
  note res = DeleteObject_result [OF assms(2)]
  from assms(1) have s0: "entry_generation (xref f ! 0) = 65535"
    using reachable_slot0_ok [of f] by (simp add: slot0_ok_def)
  have n0: "?n \<noteq> 0"
  proof
    assume "?n = 0"
    with res s0 have "generation object = 65535" by simp
    with assms(3) show False by simp
  qed
  have "find_unused (xref f') 1 = ?n"
  proof (rule find_unused_eq)
    show "1 \<le> ?n" using n0 by simp
    show "?n < length (xref f')" using res by simp
    show "\<forall>j. 1 \<le> j \<and> j < ?n \<longrightarrow> inUse (xref f' ! j) \<and> entry_generation (xref f' ! j) < 65535"
      using res assms(4) by auto
    show "\<not> (entry_generation (xref f' ! ?n) < 65535 \<and> inUse (xref f' ! ?n))"
      using res by simp
  qed
  moreover have "entry_generation (xref f' ! ?n) = generation object + 1"
    using res assms(3) by simp
  moreover have "?n < length (xref f')" using res by simp
  ultimately show "snd (ReserveObjectNumber f' ob) =
           \<lparr>number = number object, generation = generation object + 1\<rparr>"
    by (simp add: ReserveObjectNumber_def Let_def)
  show "generation object < generation object + 1"
    using assms(3) by (simp add: word_less_nat_alt unat_word_ariths)
  show "snd (ReserveObjectNumber NewFile ob) = \<lparr>number = 1, generation = 0\<rparr>"
    by (simp add: store_eval)
  let ?f3 = "\<lparr>xref = [\<lparr>byteOffset = 1, entry_generation = 65535, inUse = False, dirty = True\<rparr>,
                      \<lparr>byteOffset = 0, entry_generation = 1, inUse = False, dirty = True\<rparr>],
              out = ''%PDF-1.4'' @ [CHR 0x0A] @ ''1 0 obj'' @ [CHR 0x0A] @ Serialize_Object ob @
                    [CHR 0x0A] @ ''endobj'' @ [CHR 0x0A],
              closed = False\<rparr>"
  have "run NewFile [CallReserve ob, CallAddObjectAt \<lparr>number = 1, generation = 0\<rparr> ob,
                     CallDeleteObject \<lparr>number = 1, generation = 0\<rparr>] = Inr ?f3"
    by (simp add: store_eval)
  moreover have "snd (ReserveObjectNumber ?f3 ob) = \<lparr>number = 1, generation = 1\<rparr>"
    by (simp add: store_eval)
  ultimately show "\<exists>f3. run NewFile [CallReserve ob, CallAddObjectAt \<lparr>number = 1, generation = 0\<rparr> ob,
                             CallDeleteObject \<lparr>number = 1, generation = 0\<rparr>] = Inr f3 \<and>
               snd (ReserveObjectNumber f3 ob) = \<lparr>number = 1, generation = 1\<rparr>"
    by blast
qed

text \<open>
  C8 as stated fails when an entry with a lower index is free: in the reachable state
  \<open>first_freed\<close> the number 2 is released, and the next reservation returns number 1.
\<close>

theorem release_then_reserve_other_number:
  "reachable first_freed \<and>
   generation \<lparr>number = 2, generation = 0\<rparr> < 65535 \<and>
   DeleteObject first_freed \<lparr>number = 2, generation = 0\<rparr> = Inr both_freed \<and>
   snd (ReserveObjectNumber both_freed Null) = \<lparr>number = 1, generation = 1\<rparr>"
  using reachable_first_freed Delete_first_freed
  by (simp add: store_eval both_freed_def)

text \<open>C8 on the table \<open>two_live\<close>: number 2 is deleted and reserved again as (2,1).\<close>

theorem reuse_after_release_witness:
  "reachable two_live \<and>
   DeleteObject two_live \<lparr>number = 2, generation = 0\<rparr> = Inr second_deleted \<and>
   generation \<lparr>number = 2, generation = 0\<rparr> < 65535 \<and>
   inUse (xref two_live ! 1) \<and> entry_generation (xref two_live ! 1) < 65535 \<and>
   snd (ReserveObjectNumber second_deleted Null) = \<lparr>number = 2, generation = 1\<rparr>"
proof -
  have del: "DeleteObject two_live \<lparr>number = 2, generation = 0\<rparr> = Inr second_deleted"
    by (simp add: store_eval two_live_def second_deleted_def)
  have gen: "generation \<lparr>number = 2, generation = 0\<rparr> < 65535" by simp
  have one: "inUse (xref two_live ! 1) \<and> entry_generation (xref two_live ! 1) < 65535"
    by (simp add: two_live_def)
  have below: "\<forall>i. 1 \<le> i \<and> i < unat (number \<lparr>number = 2, generation = 0\<rparr>) \<longrightarrow>
                 inUse (xref two_live ! i) \<and> entry_generation (xref two_live ! i) < 65535"
  proof (intro allI impI)
    fix i :: nat
    assume "1 \<le> i \<and> i < unat (number \<lparr>number = 2, generation = 0\<rparr>)"
    then have "i = 1" by simp
    with one show "inUse (xref two_live ! i) \<and> entry_generation (xref two_live ! i) < 65535"
      by simp
  qed
  from reuse_after_release [OF reachable_two_live del gen below, of Null]
  have "snd (ReserveObjectNumber second_deleted Null) = \<lparr>number = 2, generation = 1\<rparr>"
    by simp
  with reachable_two_live del gen one show ?thesis by simp
qed

subsection \<open>C9: the table as writeXref writes it\<close>

text \<open>
  C9, as amended. For every table whose \<open>byteOffset\<close>s are below \<open>10 ^ 10\<close>,
  \<open>writeXref\<close> (and \<open>Close\<close>) succeeds and appends the keyword line followed by the
  segments of \<open>spec_segments\<close>, each as its header line and the fixed-width records of its
  entries. The segments are exactly the maximal runs of dirty entries, in ascending order
  and apart from each other, so entries that are not dirty are not written; a table with
  no dirty entry gives the keyword line alone.
\<close>

theorem writeXref_index:
  assumes "\<forall>e \<in> set (xref f). unat (byteOffset e) < 10 ^ 10"
  shows "writeXref f = Inr (f\<lparr>out := out f @ spec_index (xref f)\<rparr>) \<and>
         Close f = Inr (f\<lparr>out := out f @ spec_index (xref f), closed := True\<rparr>) \<and>
         set (spec_segments (xref f)) = {(s, l). is_dirty_run (xref f) s l} \<and>
         sorted_wrt (\<lambda>a b. fst a + snd a < fst b) (spec_segments (xref f)) \<and>
         (\<not> list_ex dirty (xref f) \<longrightarrow> spec_index (xref f) = ''xref'' @ [CHR 0x0A])"
proof -
  from assms
  have "map (segment_text Serialize (xref f)) (spec_segments (xref f)) =
        map (segment_text spec_record (xref f)) (spec_segments (xref f))"
    by (simp add: segment_text_fixed)
  then have "concat (map (segment_text Serialize (xref f)) (spec_segments (xref f))) =
             concat (map (segment_text spec_record (xref f)) (spec_segments (xref f)))"
    by (rule arg_cong)
  then have w: "writeXref f = Inr (f\<lparr>out := out f @ spec_index (xref f)\<rparr>)"
    by (simp only: writeXref_segments spec_index_def append_assoc)
  then have "Close f = Inr (f\<lparr>out := out f @ spec_index (xref f), closed := True\<rparr>)"
    by (simp add: Close_def)
  with w show ?thesis
    by (simp add: spec_segments_runs spec_segments_ascending spec_segments_none spec_index_def)
qed

text \<open>
  C9 as stated, for every table, fails on \<open>large_offset\<close>: the format \<open>%010d\<close> pads
  to at least 10 digits and does not cut, so the record of the second entry has 11 digits
  for the \<open>byteOffset\<close> and 21 characters, where the first has 20.
\<close>

theorem record_with_eleven_digits:
  "writeXref large_offset =
     Inr (large_offset\<lparr>out := ''xref'' @ [CHR 0x0A] @ ''0 2'' @ [CHR 0x0A] @
                               ''0000000000 65535 f '' @ [CHR 0x0A] @
                               ''10000000000 00000 n '' @ [CHR 0x0A]\<rparr>) \<and>
   writeXref large_offset \<noteq>
     Inr (large_offset\<lparr>out := out large_offset @ spec_index (xref large_offset)\<rparr>) \<and>
   length (Serialize (xref large_offset ! 0)) = 20 \<and>
   length (Serialize (xref large_offset ! 1)) = 21"
proof -
  have w: "writeXref large_offset =
     Inr (large_offset\<lparr>out := ''xref'' @ [CHR 0x0A] @ ''0 2'' @ [CHR 0x0A] @
                               ''0000000000 65535 f '' @ [CHR 0x0A] @
                               ''10000000000 00000 n '' @ [CHR 0x0A]\<rparr>)"
    by (simp add: large_offset_def index_eval)
  have idx: "spec_index (xref large_offset) =
               ''xref'' @ [CHR 0x0A] @ ''0 2'' @ [CHR 0x0A] @
               ''0000000000 65535 f '' @ [CHR 0x0A] @ ''0000000000 00000 n '' @ [CHR 0x0A]"
    by (simp add: large_offset_def spec_eval)
  have ne: "writeXref large_offset \<noteq>
     Inr (large_offset\<lparr>out := out large_offset @ spec_index (xref large_offset)\<rparr>)"
    unfolding w idx by (simp add: large_offset_def)
  have l0: "length (Serialize (xref large_offset ! 0)) = 20"
    by (simp add: large_offset_def entry_eval)
  have l1: "length (Serialize (xref large_offset ! 1)) = 21"
    by (simp add: large_offset_def entry_eval)
  from w ne l0 l1 show ?thesis by blast
qed

text \<open>
  C9 on the table \<open>mixed\<close>: two segments, the first entry alone and the third with the
  fourth.
\<close>

theorem writeXref_index_witness:
  "list_all (\<lambda>e. unat (byteOffset e) < 10 ^ 10) (xref mixed) \<and>
   spec_segments (xref mixed) = [(0, 1), (2, 2)] \<and>
   writeXref mixed =
     Inr (mixed\<lparr>out := ''xref'' @ [CHR 0x0A] @
                       ''0 1'' @ [CHR 0x0A] @ ''0000000000 65535 f '' @ [CHR 0x0A] @
                       ''2 2'' @ [CHR 0x0A] @ ''0000000017 00000 n '' @ [CHR 0x0A] @
                       ''0000000000 00003 f '' @ [CHR 0x0A]\<rparr>)"
proof -
  have small: "\<forall>e \<in> set (xref mixed). unat (byteOffset e) < 10 ^ 10"
    by (simp add: mixed_def)
  have segs: "spec_segments (xref mixed) = [(0, 1), (2, 2)]"
    by (simp add: mixed_def spec_eval)
  have idx: "spec_index (xref mixed) =
               ''xref'' @ [CHR 0x0A] @
               ''0 1'' @ [CHR 0x0A] @ ''0000000000 65535 f '' @ [CHR 0x0A] @
               ''2 2'' @ [CHR 0x0A] @ ''0000000017 00000 n '' @ [CHR 0x0A] @
               ''0000000000 00003 f '' @ [CHR 0x0A]"
    by (simp add: mixed_def spec_eval)
  have "out mixed = []" by (simp add: mixed_def)
  with writeXref_index [OF small] small segs idx show ?thesis
    by (simp add: list_all_iff)
qed

subsection \<open>C10: dirty entries\<close>

text \<open>
  C10. The initial entry and every appended entry are created dirty, and no call clears
  the flag: after any successful call on any table, an entry is dirty when it is new or
  was dirty before (\<open>dirty_kept\<close>). So in every reachable state all entries are dirty, and
  \<open>Close\<close> succeeds and writes the keyword line, then one segment that starts at index 0
  and has the length of the table, then the record of every entry in table order.
\<close>

theorem dirty_is_permanent:
  "reachable f \<Longrightarrow>
     (\<forall>g c g'. step g c = Inr g' \<longrightarrow> dirty_kept (xref g) (xref g')) \<and>
     list_all dirty (xref f) \<and>
     Close f = Inr (f\<lparr>out := out f @ ''xref'' @ [CHR 0x0A] @
                               fmt_d 0 @ '' '' @ fmt_d (length (xref f)) @ [CHR 0x0A] @
                               concat (map Serialize (xref f)),
                       closed := True\<rparr>)"
proof (intro conjI allI impI)
  fix g c g'
  assume "step g c = Inr g'"
  then show "dirty_kept (xref g) (xref g')" by (rule dirty_kept_step)
next
  assume r: "reachable f"
  then show d: "list_all dirty (xref f)" by (rule reachable_all_dirty)
  from r have "xref f \<noteq> []" using reachable_slot0_ok [of f] by (simp add: slot0_ok_def)
  with d show "Close f = Inr (f\<lparr>out := out f @ ''xref'' @ [CHR 0x0A] @
                               fmt_d 0 @ '' '' @ fmt_d (length (xref f)) @ [CHR 0x0A] @
                               concat (map Serialize (xref f)),
                       closed := True\<rparr>)"
    by (simp add: Close_def writeXref_def writeXref_all_dirty)
qed

theorem dirty_is_permanent_witness:
  "reachable three_slots \<and> list_all dirty (xref three_slots) \<and>
   Close three_slots =
     Inr (three_slots\<lparr>out := out three_slots @ ''xref'' @ [CHR 0x0A] @ ''0 3'' @ [CHR 0x0A] @
                               ''0000000002 65535 f '' @ [CHR 0x0A] @
                               ''0000000009 00000 n '' @ [CHR 0x0A] @
                               ''0000000000 00001 f '' @ [CHR 0x0A],
                       closed := True\<rparr>)"
proof -
  have ser: "concat (map Serialize (xref three_slots)) =
      ''0000000002 65535 f '' @ [CHR 0x0A] @ ''0000000009 00000 n '' @ [CHR 0x0A] @
      ''0000000000 00001 f '' @ [CHR 0x0A]"
    by (simp add: three_slots_def entry_eval)
  have len: "fmt_d 0 = ''0''" "fmt_d (length (xref three_slots)) = ''3''"
    by (simp_all add: three_slots_def fmt_d.simps digit_char_def)
  show ?thesis
    using dirty_is_permanent [OF reachable_three_slots] reachable_three_slots
    by (simp add: ser len)
qed

end
